theory Spec2Isabelle
  imports Main "HOL-Library.Word"
begin

section \<open>The generated JNI header\<close>

text \<open>
  The repository's source is one machine-generated header,
  \<^verbatim>\<open>org_meteogroup_jbrotli_BrotliStreamDeCompressor.h\<close>. It holds five
  declarations and no function body. Each declaration has two parts: a comment block
  giving the Java class, the method name and the method's JNI signature string, and
  the C prototype of the native function. The header is embedded as data: one record
  per declaration, with the comment's strings and the prototype's types verbatim.
\<close>

text \<open>The C types of a native function's prototype (all declared by \<^verbatim>\<open>jni.h\<close>; the
  header uses \<^verbatim>\<open>JNIEnv *\<close>, \<^verbatim>\<open>jclass\<close>, \<^verbatim>\<open>jobject\<close>, \<^verbatim>\<open>jbyteArray\<close> and \<^verbatim>\<open>jint\<close>).\<close>

datatype ctype =
    JNIEnv_ptr
  | jclass
  | jobject
  | jstring
  | jthrowable
  | jbooleanArray
  | jbyteArray
  | jcharArray
  | jshortArray
  | jintArray
  | jlongArray
  | jfloatArray
  | jdoubleArray
  | jobjectArray
  | jboolean
  | jbyte
  | jchar
  | jshort
  | jint
  | jlong
  | jfloat
  | jdouble
  | void

record native_decl =
  jclass_name :: string
  jmethod :: string
  jsignature :: string
  c_return :: ctype
  c_symbol :: string
  c_params :: "ctype list"

text \<open>Lines 10--16 of the header.\<close>

definition initJavaFieldIdCache_decl :: native_decl where
  "initJavaFieldIdCache_decl =
     \<lparr> jclass_name = ''org_meteogroup_jbrotli_BrotliStreamDeCompressor'',
       jmethod = ''initJavaFieldIdCache'',
       jsignature = ''()I'',
       c_return = jint,
       c_symbol = ''Java_org_meteogroup_jbrotli_BrotliStreamDeCompressor_initJavaFieldIdCache'',
       c_params = [JNIEnv_ptr, jclass] \<rparr>"

text \<open>Lines 18--24.\<close>

definition initBrotliDeCompressor_decl :: native_decl where
  "initBrotliDeCompressor_decl =
     \<lparr> jclass_name = ''org_meteogroup_jbrotli_BrotliStreamDeCompressor'',
       jmethod = ''initBrotliDeCompressor'',
       jsignature = ''()I'',
       c_return = jint,
       c_symbol = ''Java_org_meteogroup_jbrotli_BrotliStreamDeCompressor_initBrotliDeCompressor'',
       c_params = [JNIEnv_ptr, jobject] \<rparr>"

text \<open>Lines 26--32.\<close>

definition freeNativeResources_decl :: native_decl where
  "freeNativeResources_decl =
     \<lparr> jclass_name = ''org_meteogroup_jbrotli_BrotliStreamDeCompressor'',
       jmethod = ''freeNativeResources'',
       jsignature = ''()I'',
       c_return = jint,
       c_symbol = ''Java_org_meteogroup_jbrotli_BrotliStreamDeCompressor_freeNativeResources'',
       c_params = [JNIEnv_ptr, jobject] \<rparr>"

text \<open>Lines 34--40.\<close>

definition deCompressBytes_decl :: native_decl where
  "deCompressBytes_decl =
     \<lparr> jclass_name = ''org_meteogroup_jbrotli_BrotliStreamDeCompressor'',
       jmethod = ''deCompressBytes'',
       jsignature = ''([BII[BII)J'',
       c_return = jobject,
       c_symbol = ''Java_org_meteogroup_jbrotli_BrotliStreamDeCompressor_deCompressBytes'',
       c_params = [JNIEnv_ptr, jobject, jbyteArray, jint, jint, jbyteArray, jint, jint] \<rparr>"

text \<open>Lines 42--48.\<close>

definition deCompressByteBuffer_decl :: native_decl where
  "deCompressByteBuffer_decl =
     \<lparr> jclass_name = ''org_meteogroup_jbrotli_BrotliStreamDeCompressor'',
       jmethod = ''deCompressByteBuffer'',
       jsignature = ''(Ljava/nio/ByteBuffer;IILjava/nio/ByteBuffer;II)J'',
       c_return = jobject,
       c_symbol = ''Java_org_meteogroup_jbrotli_BrotliStreamDeCompressor_deCompressByteBuffer'',
       c_params = [JNIEnv_ptr, jobject, jobject, jint, jint, jobject, jint, jint] \<rparr>"

text \<open>The header, in the order of the file.\<close>

definition header :: "native_decl list" where
  "header =
     [initJavaFieldIdCache_decl, initBrotliDeCompressor_decl, freeNativeResources_decl,
      deCompressBytes_decl, deCompressByteBuffer_decl]"

definition find_decl :: "string \<Rightarrow> native_decl option" where
  "find_decl m = find (\<lambda>d. jmethod d = m) header"

subsection \<open>Reading a JNI signature string\<close>

text \<open>
  The \<^verbatim>\<open>Signature:\<close> comment is a JNI method descriptor: the parameter types
  between parentheses, then the return type. A type is one letter for a primitive
  (\<^verbatim>\<open>I\<close> int, \<^verbatim>\<open>J\<close> long, \<^verbatim>\<open>B\<close> byte, ...), \<^verbatim>\<open>L\<close> followed by a class name
  and a semicolon for a reference, and \<^verbatim>\<open>[\<close> before a type for an array of it.
  The grammar and the C type that stands for each Java type are those of the JNI
  specification, which the header includes as \<^verbatim>\<open>jni.h\<close>; they are not code of this
  repository.
\<close>

datatype jtype =
    JBoolean | JByte | JChar | JShort | JInt | JLong | JFloat | JDouble | JVoid
  | JRef string
  | JArray jtype

fun primitive :: "char \<Rightarrow> jtype option" where
  "primitive c =
     (if c = CHR ''Z'' then Some JBoolean
      else if c = CHR ''B'' then Some JByte
      else if c = CHR ''C'' then Some JChar
      else if c = CHR ''S'' then Some JShort
      else if c = CHR ''I'' then Some JInt
      else if c = CHR ''J'' then Some JLong
      else if c = CHR ''F'' then Some JFloat
      else if c = CHR ''D'' then Some JDouble
      else if c = CHR ''V'' then Some JVoid
      else None)"

fun array_of :: "nat \<Rightarrow> jtype \<Rightarrow> jtype" where
  "array_of 0 t = t"
| "array_of (Suc n) t = JArray (array_of n t)"

text \<open>
  The scanner reads a sequence of types character by character. Its state is either
  \<open>Outside n\<close>, between types with \<open>n\<close> array brackets read and not yet used, or
  \<open>Inside n cs\<close>, within a class name whose characters so far are \<open>cs\<close> reversed.
\<close>

datatype scan_state = Outside nat | Inside nat string

fun scan :: "scan_state \<Rightarrow> string \<Rightarrow> jtype list option" where
  "scan (Outside n) [] = (if n = 0 then Some [] else None)"
| "scan (Inside n acc) [] = None"
| "scan (Outside n) (c # cs) =
     (if c = CHR ''['' then scan (Outside (Suc n)) cs
      else if c = CHR ''L'' then scan (Inside n []) cs
      else (case primitive c of
              None \<Rightarrow> None
            | Some t \<Rightarrow> map_option ((#) (array_of n t)) (scan (Outside 0) cs)))"
| "scan (Inside n acc) (c # cs) =
     (if c = CHR '';''
      then map_option ((#) (array_of n (JRef (rev acc)))) (scan (Outside 0) cs)
      else scan (Inside n (c # acc)) cs)"

text \<open>A method descriptor: \<^verbatim>\<open>(\<close> parameters \<^verbatim>\<open>)\<close> return type.\<close>

definition parse_signature :: "string \<Rightarrow> (jtype list \<times> jtype) option" where
  "parse_signature s =
     (case s of
        [] \<Rightarrow> None
      | c # rest \<Rightarrow>
          (if c = CHR ''(''
           then (case (scan (Outside 0) (takeWhile (\<lambda>x. x \<noteq> CHR '')'') rest),
                       scan (Outside 0) (drop 1 (dropWhile (\<lambda>x. x \<noteq> CHR '')'') rest)))
                 of (Some ps, Some [r]) \<Rightarrow> Some (ps, r)
                  | _ \<Rightarrow> None)
           else None))"

definition signature_return :: "native_decl \<Rightarrow> jtype option" where
  "signature_return d = map_option snd (parse_signature (jsignature d))"

definition signature_params :: "native_decl \<Rightarrow> jtype list option" where
  "signature_params d = map_option fst (parse_signature (jsignature d))"

text \<open>The C type by which \<^verbatim>\<open>jni.h\<close> passes a value of each Java type.\<close>

fun c_type_of :: "jtype \<Rightarrow> ctype" where
  "c_type_of JBoolean = jboolean"
| "c_type_of JByte = jbyte"
| "c_type_of JChar = jchar"
| "c_type_of JShort = jshort"
| "c_type_of JInt = jint"
| "c_type_of JLong = jlong"
| "c_type_of JFloat = jfloat"
| "c_type_of JDouble = jdouble"
| "c_type_of JVoid = void"
| "c_type_of (JRef n) =
     (if n = ''java/lang/String'' then jstring
      else if n = ''java/lang/Class'' then jclass
      else if n = ''java/lang/Throwable'' then jthrowable
      else jobject)"
| "c_type_of (JArray JBoolean) = jbooleanArray"
| "c_type_of (JArray JByte) = jbyteArray"
| "c_type_of (JArray JChar) = jcharArray"
| "c_type_of (JArray JShort) = jshortArray"
| "c_type_of (JArray JInt) = jintArray"
| "c_type_of (JArray JLong) = jlongArray"
| "c_type_of (JArray JFloat) = jfloatArray"
| "c_type_of (JArray JDouble) = jdoubleArray"
| "c_type_of (JArray JVoid) = jobjectArray"
| "c_type_of (JArray (JRef n)) = jobjectArray"
| "c_type_of (JArray (JArray t)) = jobjectArray"

text \<open>
  A prototype agrees with its signature comment when its return type is the C type of
  the signature's return type, and when its parameters after the two every native
  function receives (the environment and the receiver) are the C types of the
  signature's parameters.
\<close>

definition return_agrees :: "native_decl \<Rightarrow> bool" where
  "return_agrees d = (map_option c_type_of (signature_return d) = Some (c_return d))"

definition params_agree :: "native_decl \<Rightarrow> bool" where
  "params_agree d = (map_option (map c_type_of) (signature_params d) = Some (drop 2 (c_params d)))"

section \<open>The boundary contract behind the declarations\<close>

text \<open>
  The header declares the five entry points and nothing else: the functions' bodies
  (the JNI implementation file of this repository) are not among the sources. What
  the entry points do is therefore modelled from the specification, sections 3, 4.1
  and 7. The Brotli codec itself is an external library and stays a parameter.
\<close>

type_synonym byte = "8 word"

text \<open>Modelled from the spec: the status of a \<open>DecodeResult\<close> (section 4.1) and the error
  taxonomy (section 7); the implementation that produces them is missing.
\<close>

datatype Status = NEEDS_MORE_INPUT | HAS_MORE_OUTPUT | FINISHED | ERROR

datatype Error =
    InitializationError
  | InvalidArgumentError
  | CorruptStreamError
  | UseAfterReleaseError

text \<open>Modelled from the spec: the composite result of one decode call (section 3): the
  number of input bytes consumed, the number of output bytes produced, the status.
\<close>

record DecodeResult =
  consumed :: nat
  produced :: nat
  status :: Status

text \<open>Modelled from the spec: \<open>InputSlice\<close> and \<open>OutputSlice\<close> (section 3), a view
  (backing buffer, offset, length). The header passes offset and length as \<^verbatim>\<open>jint\<close>;
  the model takes any integer, which includes every \<^verbatim>\<open>jint\<close>.
\<close>

record Slice =
  backing :: "byte list"
  offset :: int
  len :: int

text \<open>Modelled from the spec: the constraint of section 3 on a slice, offset \<open>\<ge> 0\<close>,
  length \<open>\<ge> 0\<close>, offset + length within the backing buffer.
\<close>

definition valid_slice :: "Slice \<Rightarrow> bool" where
  "valid_slice s = (0 \<le> offset s \<and> 0 \<le> len s \<and> offset s + len s \<le> int (length (backing s)))"

text \<open>Modelled from the spec: what \<open>decompressChunk\<close> reads and writes (section 4.1):
  the bytes a slice views, \<open>length\<close> bytes starting at \<open>offset\<close>, and the slice's
  backing buffer after bytes were written into it starting at \<open>offset\<close>.\<close>

definition region :: "Slice \<Rightarrow> byte list" where
  "region s = take (nat (len s)) (drop (nat (offset s)) (backing s))"

definition write_region :: "Slice \<Rightarrow> byte list \<Rightarrow> byte list" where
  "write_region s bs =
     take (nat (offset s)) (backing s) @ bs @ drop (nat (offset s) + length bs) (backing s)"

text \<open>
  The external codec is not code of this repository and the spec keeps it opaque; it
  is a parameter. From a decoder state, the input bytes on offer and
  the output capacity, it gives the next decoder state, the number of input bytes it
  consumed, the bytes it produced and the status.
\<close>

type_synonym 'd codec = "'d \<Rightarrow> byte list \<Rightarrow> nat \<Rightarrow> 'd \<times> nat \<times> byte list \<times> Status"

text \<open>Modelled from the spec: the \<open>DecoderHandle\<close> of a \<open>StreamDecompressor\<close> (section 3):
  created by init, destroyed by teardown, bound to the instance for its lifetime. A
  live handle is the address of a native decoder.
\<close>

type_synonym addr = nat
type_synonym inst = nat

datatype DecoderHandle = NotInitialized | Live addr | Released

text \<open>Modelled from the spec: the state of the process the calls act on. \<open>decoders\<close> is the
  native memory holding the decoder instances, \<open>handles\<close> the handle of each
  \<open>StreamDecompressor\<close>, \<open>allocated\<close> the number of decoders allocated so far (the
  allocator hands out addresses in order), \<open>freed\<close> the log of the native decoders
  destroyed, in order, and \<open>field_cache\<close> the process-wide metadata cache of
  \<open>initJavaFieldIdCache\<close>.
\<close>

record 'd Process =
  decoders :: "addr \<Rightarrow> 'd option"
  handles :: "inst \<Rightarrow> DecoderHandle"
  allocated :: nat
  freed :: "addr list"
  field_cache :: bool

definition start :: "'d Process" where
  "start = \<lparr> decoders = (\<lambda>a. None), handles = (\<lambda>i. NotInitialized), allocated = 0,
             freed = [], field_cache = False \<rparr>"

text \<open>Modelled from the spec: \<open>initJavaFieldIdCache\<close> (section 6), the process-wide setup
  of the metadata cache; its body is missing. The header returns the status of the
  three lifecycle calls as a \<^verbatim>\<open>jint\<close>; the spec gives the codes no values, so the
  model returns the status itself: success, or the error.
\<close>

definition initJavaFieldIdCache :: "'d Process \<Rightarrow> (Error + unit) \<times> 'd Process" where
  "initJavaFieldIdCache p = (Inr (), p\<lparr>field_cache := True\<rparr>)"

text \<open>Modelled from the spec: \<open>initialize()\<close> (section 4.1), the body of
  \<open>initBrotliDeCompressor\<close>, which is missing. It allocates one native decoder and
  binds it to the instance; it fails with \<open>InitializationError\<close> when the library
  cannot allocate (\<open>fresh = None\<close>) or when the instance was initialized already. The
  handle is bound for the instance's lifetime, so a released instance counts as
  initialized already.
\<close>

definition initBrotliDeCompressor ::
  "'d option \<Rightarrow> inst \<Rightarrow> 'd Process \<Rightarrow> (Error + unit) \<times> 'd Process" where
  "initBrotliDeCompressor fresh i p =
     (case handles p i of
        NotInitialized \<Rightarrow>
          (case fresh of
             None \<Rightarrow> (Inl InitializationError, p)
           | Some d \<Rightarrow>
               (Inr (), p\<lparr>decoders := (decoders p)(allocated p := Some d),
                          handles := (handles p)(i := Live (allocated p)),
                          allocated := Suc (allocated p)\<rparr>))
      | Live a \<Rightarrow> (Inl InitializationError, p)
      | Released \<Rightarrow> (Inl InitializationError, p))"

text \<open>Modelled from the spec: the release of a native decoder, which
  \<open>releaseResources()\<close> performs (section 4.1). Destroying an address that holds no
  decoder is the double free of section 8; the model has no value for it (\<open>None\<close>).
\<close>

definition native_free :: "addr \<Rightarrow> 'd Process \<Rightarrow> 'd Process option" where
  "native_free a p =
     (case decoders p a of
        None \<Rightarrow> None
      | Some d \<Rightarrow> Some (p\<lparr>decoders := (decoders p)(a := None), freed := freed p @ [a]\<rparr>))"

text \<open>Modelled from the spec: \<open>releaseResources()\<close> (section 4.1), the body of
  \<open>freeNativeResources\<close>, which is missing. It releases the native decoder if the
  instance holds one and leaves the handle released; on a released handle it does
  nothing. The only cached metadata the spec names is the process-wide cache of
  section 6, which is no state of an instance; a release leaves it alone.
\<close>

definition freeNativeResources ::
  "inst \<Rightarrow> 'd Process \<Rightarrow> ((Error + unit) \<times> 'd Process) option" where
  "freeNativeResources i p =
     (case handles p i of
        NotInitialized \<Rightarrow> Some (Inr (), p\<lparr>handles := (handles p)(i := Released)\<rparr>)
      | Live a \<Rightarrow>
          (case native_free a p of
             None \<Rightarrow> None
           | Some q \<Rightarrow> Some (Inr (), q\<lparr>handles := (handles q)(i := Released)\<rparr>))
      | Released \<Rightarrow> Some (Inr (), p))"

text \<open>Modelled from the spec: the two tests of a decode call. Section 7 asks for
  \<open>InvalidArgumentError\<close> on a slice out of bounds, section 4.1 for
  \<open>UseAfterReleaseError\<close> on a released handle; for a call that is both, the spec
  fixes no order between the two tests, and no code under the sources decides it.
  The order is a parameter of the model: whatever is proved for every order holds
  for either reading.
\<close>

datatype check_order = SlicesFirst | HandleFirst

text \<open>Modelled from the spec: a decode call on a live handle with slices in bounds
  (section 4.1). The codec is fed the input region and given the output slice's
  length as capacity. Of the bytes it hands back, at most that many are written,
  starting at the output slice's offset: the write never exceeds the slice's length.
  The result holds the \<open>DecodeResult\<close> and the output buffer after the call. The
  decoder state the codec leaves, also after it has reported \<open>ERROR\<close>, is the
  codec's. A handle whose decoder is gone would be a use of freed native memory; the
  model has no value for it (\<open>None\<close>).
\<close>

definition decode_live ::
  "'d codec \<Rightarrow> addr \<Rightarrow> Slice \<Rightarrow> Slice \<Rightarrow> 'd Process
     \<Rightarrow> ((Error + DecodeResult \<times> byte list) \<times> 'd Process) option" where
  "decode_live codec a inp out p =
     (case decoders p a of
        None \<Rightarrow> None
      | Some d \<Rightarrow>
          (case codec d (region inp) (nat (len out)) of
             (d', n, bs, st) \<Rightarrow>
               Some (Inr (\<lparr>consumed = n, produced = length (take (nat (len out)) bs),
                           status = st\<rparr>,
                          write_region out (take (nat (len out)) bs)),
                     p\<lparr>decoders := (decoders p)(a := Some d')\<rparr>)))"

text \<open>Modelled from the spec: \<open>decompressChunk\<close> (section 4.1), the body of
  \<open>deCompressBytes\<close>, which is missing (\<open>deCompressByteBuffer\<close> has the same
  contract). A slice out of bounds gives \<open>InvalidArgumentError\<close> (section 7), a
  released handle \<open>UseAfterReleaseError\<close> (section 4.1), in the order the parameter
  gives. The spec names no error for a call before init; the model reports
  \<open>InitializationError\<close>. A call that fails leaves the process as it was.
\<close>

definition decompressChunk ::
  "check_order \<Rightarrow> 'd codec \<Rightarrow> inst \<Rightarrow> Slice \<Rightarrow> Slice \<Rightarrow> 'd Process
     \<Rightarrow> ((Error + DecodeResult \<times> byte list) \<times> 'd Process) option" where
  "decompressChunk order codec i inp out p =
     (case order of
        SlicesFirst \<Rightarrow>
          (if valid_slice inp \<and> valid_slice out then
             (case handles p i of
                NotInitialized \<Rightarrow> Some (Inl InitializationError, p)
              | Live a \<Rightarrow> decode_live codec a inp out p
              | Released \<Rightarrow> Some (Inl UseAfterReleaseError, p))
           else Some (Inl InvalidArgumentError, p))
      | HandleFirst \<Rightarrow>
          (case handles p i of
             NotInitialized \<Rightarrow> Some (Inl InitializationError, p)
           | Live a \<Rightarrow>
               (if valid_slice inp \<and> valid_slice out then decode_live codec a inp out p
                else Some (Inl InvalidArgumentError, p))
           | Released \<Rightarrow> Some (Inl UseAfterReleaseError, p)))"

subsection \<open>Sequences of calls\<close>

text \<open>Modelled from the spec: the five boundary calls of section 6 and what a call
  answers: a status for the three lifecycle calls, the composite result and the output
  buffer for a decode call, an error of section 7 for a failed call.\<close>

datatype 'd call =
    InitFieldIdCache
  | Init inst "'d option"
  | Decompress inst Slice Slice
  | Free inst

datatype reply = Succeeded | Failed Error | Decoded DecodeResult "byte list"

fun reply_of :: "Error + unit \<Rightarrow> reply" where
  "reply_of (Inl e) = Failed e"
| "reply_of (Inr u) = Succeeded"

fun decoded_of :: "Error + DecodeResult \<times> byte list \<Rightarrow> reply" where
  "decoded_of (Inl e) = Failed e"
| "decoded_of (Inr (r, bs)) = Decoded r bs"

text \<open>Modelled from the spec: one call, and a sequence of calls, against a process
  (section 3, lifecycle). A sequence stops without a value where a call has none.\<close>

fun step ::
  "check_order \<Rightarrow> 'd codec \<Rightarrow> 'd call \<Rightarrow> 'd Process \<Rightarrow> (reply \<times> 'd Process) option" where
  "step order codec InitFieldIdCache p = Some (map_prod reply_of id (initJavaFieldIdCache p))"
| "step order codec (Init i fresh) p =
     Some (map_prod reply_of id (initBrotliDeCompressor fresh i p))"
| "step order codec (Decompress i inp out) p =
     map_option (map_prod decoded_of id) (decompressChunk order codec i inp out p)"
| "step order codec (Free i) p = map_option (map_prod reply_of id) (freeNativeResources i p)"

fun run ::
  "check_order \<Rightarrow> 'd codec \<Rightarrow> 'd call list \<Rightarrow> 'd Process
     \<Rightarrow> (reply list \<times> 'd Process) option" where
  "run order codec [] p = Some ([], p)"
| "run order codec (c # cs) p =
     (case step order codec c p of
        None \<Rightarrow> None
      | Some (r, q) \<Rightarrow> map_option (map_prod ((#) r) id) (run order codec cs q))"

text \<open>
  A stand-in for the external codec, used only in the concrete runs below: it copies
  input to output as far as the capacity allows and counts the bytes it has copied.
\<close>

definition copy_codec :: "nat codec" where
  "copy_codec d inp cap =
     (d + min (length inp) cap, min (length inp) cap, take cap inp,
      if length inp \<le> cap then NEEDS_MORE_INPUT else HAS_MORE_OUTPUT)"

text \<open>Two concrete processes: one instance initialized, and the same instance after
  its release.\<close>

definition ready :: "nat Process" where
  "ready = snd (initBrotliDeCompressor (Some 0) 0 start)"

definition released :: "nat Process" where
  "released = ready\<lparr>decoders := (decoders ready)(0 := None), freed := [0],
                     handles := (handles ready)(0 := Released)\<rparr>"

subsection \<open>The lifecycle invariant\<close>

text \<open>
  The ownership discipline of section 3, as a property of a process: every live
  handle is the address of a decoder that exists; no two instances hold the same
  decoder; every decoder that exists was allocated and is held by some instance; no
  decoder was destroyed twice; and the destroyed decoders are exactly the allocated
  ones that exist no longer.
\<close>

definition lifecycle_inv :: "'d Process \<Rightarrow> bool" where
  "lifecycle_inv p =
     ((\<forall>i a. handles p i = Live a \<longrightarrow> decoders p a \<noteq> None)
      \<and> (\<forall>i j a. handles p i = Live a \<and> handles p j = Live a \<longrightarrow> i = j)
      \<and> (\<forall>a. decoders p a \<noteq> None \<longrightarrow> a < allocated p \<and> (\<exists>i. handles p i = Live a))
      \<and> distinct (freed p)
      \<and> set (freed p) = {a. a < allocated p \<and> decoders p a = None})"

section \<open>What the header's declarations say\<close>

lemma parse_signature_no_args: "parse_signature ''()I'' = Some ([], JInt)"
  by (simp add: parse_signature_def)

lemma parse_signature_deCompressBytes:
  "parse_signature ''([BII[BII)J'' = Some ([JArray JByte, JInt, JInt, JArray JByte, JInt, JInt], JLong)"
  by (simp add: parse_signature_def)

lemma parse_signature_deCompressByteBuffer:
  "parse_signature ''(Ljava/nio/ByteBuffer;IILjava/nio/ByteBuffer;II)J'' =
     Some ([JRef ''java/nio/ByteBuffer'', JInt, JInt, JRef ''java/nio/ByteBuffer'', JInt, JInt], JLong)"
  by (simp add: parse_signature_def)

text \<open>
  The three lifecycle declarations agree with their comments in every position, and
  the two decompress declarations agree in their parameters.
\<close>

lemma lifecycle_decls_agree:
  "return_agrees initJavaFieldIdCache_decl \<and> params_agree initJavaFieldIdCache_decl
   \<and> return_agrees initBrotliDeCompressor_decl \<and> params_agree initBrotliDeCompressor_decl
   \<and> return_agrees freeNativeResources_decl \<and> params_agree freeNativeResources_decl"
  by (simp add: return_agrees_def params_agree_def signature_return_def signature_params_def
      initJavaFieldIdCache_decl_def initBrotliDeCompressor_decl_def freeNativeResources_decl_def
      parse_signature_no_args)

lemma decompress_params_agree:
  "params_agree deCompressBytes_decl \<and> params_agree deCompressByteBuffer_decl"
  by (simp add: params_agree_def signature_params_def deCompressBytes_decl_def
      deCompressByteBuffer_decl_def parse_signature_deCompressBytes
      parse_signature_deCompressByteBuffer)

text \<open>
  The receiver of each native function is its second parameter. \<open>initJavaFieldIdCache\<close>
  receives the class and nothing else; the other four receive an instance.
\<close>

lemma initJavaFieldIdCache_decl_shape:
  "find_decl ''initJavaFieldIdCache'' = Some initJavaFieldIdCache_decl
   \<and> c_params initJavaFieldIdCache_decl = [JNIEnv_ptr, jclass]
   \<and> signature_params initJavaFieldIdCache_decl = Some []
   \<and> c_return initJavaFieldIdCache_decl = jint
   \<and> signature_return initJavaFieldIdCache_decl = Some JInt"
  by (simp add: find_decl_def header_def signature_params_def signature_return_def
      initJavaFieldIdCache_decl_def parse_signature_no_args)

lemma instance_decls_receiver:
  "map (\<lambda>d. c_params d ! 1) (tl header) = [jobject, jobject, jobject, jobject]"
  by (simp add: header_def initBrotliDeCompressor_decl_def freeNativeResources_decl_def
      deCompressBytes_decl_def deCompressByteBuffer_decl_def)

text \<open>
  The two decompress declarations have one shape: the same return type and the same
  parameters, but for the two memory views, a byte array in one and a
  \<^verbatim>\<open>java.nio.ByteBuffer\<close> object in the other.
\<close>

lemma decompress_decls_same_shape:
  "c_return deCompressBytes_decl = c_return deCompressByteBuffer_decl
   \<and> signature_return deCompressBytes_decl = signature_return deCompressByteBuffer_decl
   \<and> map (\<lambda>t. if t = jbyteArray then jobject else t) (c_params deCompressBytes_decl)
       = c_params deCompressByteBuffer_decl
   \<and> map_option (map (\<lambda>t. if t = JArray JByte then JRef ''java/nio/ByteBuffer'' else t))
         (signature_params deCompressBytes_decl)
       = signature_params deCompressByteBuffer_decl"
  by (simp add: signature_return_def signature_params_def deCompressBytes_decl_def
      deCompressByteBuffer_decl_def parse_signature_deCompressBytes
      parse_signature_deCompressByteBuffer)

text \<open>
  C10. For both decompress entry points the C prototype returns \<^verbatim>\<open>jobject\<close>, a
  reference, while the signature comment of the same method ends in \<^verbatim>\<open>J\<close>, the
  primitive \<^verbatim>\<open>long\<close>, which \<^verbatim>\<open>jni.h\<close> passes as \<^verbatim>\<open>jlong\<close>. The two declared
  encodings of the value returned by a decompress call disagree.
\<close>

theorem decompress_return_encodings_disagree:
  "find_decl ''deCompressBytes'' = Some deCompressBytes_decl
   \<and> jsignature deCompressBytes_decl = ''([BII[BII)J''
   \<and> c_return deCompressBytes_decl = jobject
   \<and> signature_return deCompressBytes_decl = Some JLong
   \<and> \<not> return_agrees deCompressBytes_decl
   \<and> find_decl ''deCompressByteBuffer'' = Some deCompressByteBuffer_decl
   \<and> jsignature deCompressByteBuffer_decl = ''(Ljava/nio/ByteBuffer;IILjava/nio/ByteBuffer;II)J''
   \<and> c_return deCompressByteBuffer_decl = jobject
   \<and> signature_return deCompressByteBuffer_decl = Some JLong
   \<and> \<not> return_agrees deCompressByteBuffer_decl
   \<and> c_type_of JLong = jlong \<and> jlong \<noteq> jobject"
  by (simp add: find_decl_def header_def return_agrees_def signature_return_def
      initJavaFieldIdCache_decl_def initBrotliDeCompressor_decl_def freeNativeResources_decl_def
      deCompressBytes_decl_def deCompressByteBuffer_decl_def
      parse_signature_deCompressBytes parse_signature_deCompressByteBuffer)

section \<open>What the boundary contract implies\<close>

subsection \<open>The invariant and the calls that keep it\<close>

lemma inv_live: "lifecycle_inv p \<Longrightarrow> handles p i = Live a \<Longrightarrow> \<exists>d. decoders p a = Some d"
  by (auto simp: lifecycle_inv_def)

lemma inv_unique: "lifecycle_inv p \<Longrightarrow> handles p i = Live a \<Longrightarrow> handles p j = Live a \<Longrightarrow> i = j"
  unfolding lifecycle_inv_def by blast

lemma inv_bound: "lifecycle_inv p \<Longrightarrow> decoders p a = Some d \<Longrightarrow> a < allocated p"
  unfolding lifecycle_inv_def by auto

lemma inv_owner: "lifecycle_inv p \<Longrightarrow> decoders p a = Some d \<Longrightarrow> \<exists>i. handles p i = Live a"
  unfolding lifecycle_inv_def by auto

lemma inv_distinct: "lifecycle_inv p \<Longrightarrow> distinct (freed p)"
  unfolding lifecycle_inv_def by simp

lemma inv_freed: "lifecycle_inv p \<Longrightarrow> a \<in> set (freed p) \<longleftrightarrow> a < allocated p \<and> decoders p a = None"
  unfolding lifecycle_inv_def by simp

lemma lifecycle_invI:
  assumes "\<And>i a. handles p i = Live a \<Longrightarrow> \<exists>d. decoders p a = Some d"
    and "\<And>i j a. handles p i = Live a \<Longrightarrow> handles p j = Live a \<Longrightarrow> i = j"
    and "\<And>a d. decoders p a = Some d \<Longrightarrow> a < allocated p"
    and "\<And>a d. decoders p a = Some d \<Longrightarrow> \<exists>i. handles p i = Live a"
    and "distinct (freed p)"
    and "\<And>a. a \<in> set (freed p) \<longleftrightarrow> a < allocated p \<and> decoders p a = None"
  shows "lifecycle_inv p"
  unfolding lifecycle_inv_def
proof (intro conjI allI impI)
  fix i a assume "handles p i = Live a"
  then show "decoders p a \<noteq> None" using assms(1) by fastforce
next
  fix i j a assume "handles p i = Live a \<and> handles p j = Live a"
  then show "i = j" using assms(2) by blast
next
  fix a assume "decoders p a \<noteq> None"
  then show "a < allocated p" using assms(3) by blast
next
  fix a assume "decoders p a \<noteq> None"
  then show "\<exists>i. handles p i = Live a" using assms(4) by blast
next
  show "distinct (freed p)" by (rule assms(5))
next
  show "set (freed p) = {a. a < allocated p \<and> decoders p a = None}"
    using assms(6) by blast
qed

lemma inv_start: "lifecycle_inv start"
  by (rule lifecycle_invI) (simp_all add: start_def)

lemma inv_cache: "lifecycle_inv p \<Longrightarrow> lifecycle_inv (p\<lparr>field_cache := b\<rparr>)"
  by (simp add: lifecycle_inv_def)

lemma init_cases:
  "initBrotliDeCompressor fresh i p = (Inl InitializationError, p)
   \<or> (\<exists>d. fresh = Some d \<and> handles p i = NotInitialized
        \<and> initBrotliDeCompressor fresh i p =
            (Inr (), p\<lparr>decoders := (decoders p)(allocated p := Some d),
                       handles := (handles p)(i := Live (allocated p)),
                       allocated := Suc (allocated p)\<rparr>))"
  by (cases "handles p i"; cases fresh; simp add: initBrotliDeCompressor_def)

lemma inv_alloc:
  assumes inv: "lifecycle_inv p" and h: "handles p i = NotInitialized"
  shows "lifecycle_inv (p\<lparr>decoders := (decoders p)(allocated p := Some d),
                       handles := (handles p)(i := Live (allocated p)),
                       allocated := Suc (allocated p)\<rparr>)"
    (is "lifecycle_inv ?q")
proof -
  have fresh_addr: "decoders p (allocated p) = None"
    using inv_bound [OF inv, of "allocated p"] by (cases "decoders p (allocated p)") auto
  have no_owner: "handles p j \<noteq> Live (allocated p)" for j
    using inv_live [OF inv, of j "allocated p"] fresh_addr by auto
  show ?thesis
  proof (rule lifecycle_invI)
    fix j a
    assume "handles ?q j = Live a"
    then show "\<exists>e. decoders ?q a = Some e"
      using inv_live [OF inv, of j a] by (cases "j = i") auto
  next
    fix j k a
    assume "handles ?q j = Live a" and "handles ?q k = Live a"
    then show "j = k"
      using inv_unique [OF inv, of j a k] no_owner [of j] no_owner [of k]
      by (cases "j = i"; cases "k = i") auto
  next
    fix a e
    assume "decoders ?q a = Some e"
    then show "a < allocated ?q"
      using inv_bound [OF inv, of a e] by (cases "a = allocated p") auto
  next
    fix a e
    assume "decoders ?q a = Some e"
    then show "\<exists>j. handles ?q j = Live a"
    proof (cases "a = allocated p")
      case True
      then have "handles ?q i = Live a" by simp
      then show ?thesis ..
    next
      case False
      with \<open>decoders ?q a = Some e\<close> have "decoders p a = Some e" by simp
      then obtain j where j: "handles p j = Live a" using inv_owner [OF inv] by blast
      with h have "j \<noteq> i" by auto
      with j have "handles ?q j = Live a" by simp
      then show ?thesis ..
    qed
  next
    show "distinct (freed ?q)" using inv_distinct [OF inv] by simp
  next
    fix a
    show "a \<in> set (freed ?q) \<longleftrightarrow> a < allocated ?q \<and> decoders ?q a = None"
      using inv_freed [OF inv, of a] by auto
  qed
qed

lemma inv_init: "lifecycle_inv p \<Longrightarrow> lifecycle_inv (snd (initBrotliDeCompressor fresh i p))"
  using init_cases [of fresh i p] inv_alloc [of p i] by auto

lemma inv_release_unbound:
  assumes inv: "lifecycle_inv p" and h: "handles p i = NotInitialized"
  shows "lifecycle_inv (p\<lparr>handles := (handles p)(i := Released)\<rparr>)" (is "lifecycle_inv ?q")
proof (rule lifecycle_invI)
  fix j a
  assume "handles ?q j = Live a"
  then show "\<exists>e. decoders ?q a = Some e"
    using inv_live [OF inv, of j a] by (cases "j = i") auto
next
  fix j k a
  assume "handles ?q j = Live a" and "handles ?q k = Live a"
  then show "j = k"
    using inv_unique [OF inv, of j a k] by (cases "j = i"; cases "k = i") auto
next
  fix a e
  assume "decoders ?q a = Some e"
  then show "a < allocated ?q" using inv_bound [OF inv, of a e] by simp
next
  fix a e
  assume "decoders ?q a = Some e"
  then have "decoders p a = Some e" by simp
  then obtain j where j: "handles p j = Live a" using inv_owner [OF inv] by blast
  with h have "j \<noteq> i" by auto
  with j have "handles ?q j = Live a" by simp
  then show "\<exists>j. handles ?q j = Live a" ..
next
  show "distinct (freed ?q)" using inv_distinct [OF inv] by simp
next
  fix a
  show "a \<in> set (freed ?q) \<longleftrightarrow> a < allocated ?q \<and> decoders ?q a = None"
    using inv_freed [OF inv, of a] by auto
qed

lemma inv_release_live:
  assumes inv: "lifecycle_inv p" and h: "handles p i = Live a" 
  shows "lifecycle_inv (p\<lparr>decoders := (decoders p)(a := None), freed := freed p @ [a],
                         handles := (handles p)(i := Released)\<rparr>)" (is "lifecycle_inv ?q")
proof -
  obtain d where d: "decoders p a = Some d" using inv_live [OF inv h] ..
  have a_lt: "a < allocated p" by (rule inv_bound [OF inv d])
  have notin: "a \<notin> set (freed p)" using inv_freed [OF inv, of a] d by simp
  show ?thesis
  proof (rule lifecycle_invI)
    fix j b
    assume l: "handles ?q j = Live b"
    then have j: "j \<noteq> i" and hb: "handles p j = Live b" by (auto split: if_splits)
    from hb h j have "b \<noteq> a" using inv_unique [OF inv, of j a i] by auto
    then show "\<exists>e. decoders ?q b = Some e"
      using inv_live [OF inv hb] by simp
  next
    fix j k b
    assume "handles ?q j = Live b" and "handles ?q k = Live b"
    then show "j = k"
      using inv_unique [OF inv, of j b k] by (cases "j = i"; cases "k = i") auto
  next
    fix b e
    assume "decoders ?q b = Some e"
    then show "b < allocated ?q"
      using inv_bound [OF inv, of b e] by (cases "b = a") auto
  next
    fix b e
    assume l: "decoders ?q b = Some e"
    then have ba: "b \<noteq> a" and "decoders p b = Some e" by (auto split: if_splits)
    then obtain j where j: "handles p j = Live b" using inv_owner [OF inv] by blast
    with h ba have "j \<noteq> i" by auto
    with j have "handles ?q j = Live b" by simp
    then show "\<exists>j. handles ?q j = Live b" ..
  next
    show "distinct (freed ?q)" using inv_distinct [OF inv] notin by simp
  next
    fix b
    show "b \<in> set (freed ?q) \<longleftrightarrow> b < allocated ?q \<and> decoders ?q b = None"
      using inv_freed [OF inv, of b] a_lt by auto
  qed
qed

lemma free_cases:
  "(handles p i = NotInitialized
      \<and> freeNativeResources i p = Some (Inr (), p\<lparr>handles := (handles p)(i := Released)\<rparr>))
   \<or> (handles p i = Released \<and> freeNativeResources i p = Some (Inr (), p))
   \<or> (\<exists>a. handles p i = Live a \<and> decoders p a = None \<and> freeNativeResources i p = None)
   \<or> (\<exists>a d. handles p i = Live a \<and> decoders p a = Some d
        \<and> freeNativeResources i p =
            Some (Inr (), p\<lparr>decoders := (decoders p)(a := None), freed := freed p @ [a],
                             handles := (handles p)(i := Released)\<rparr>))"
proof (cases "handles p i")
  case (Live a)
  then show ?thesis
    by (cases "decoders p a") (simp_all add: freeNativeResources_def native_free_def)
qed (simp_all add: freeNativeResources_def)

lemma inv_free:
  assumes inv: "lifecycle_inv p"
  shows "\<exists>q. freeNativeResources i p = Some (Inr (), q) \<and> lifecycle_inv q \<and> handles q i = Released"
  using free_cases [of p i] inv inv_release_unbound [OF inv, of i] inv_release_live [OF inv, of i]
    inv_live [OF inv, of i]
  by (elim disjE exE conjE) auto

lemma inv_decoder_update:
  assumes inv: "lifecycle_inv p" and d: "decoders p a = Some d"
  shows "lifecycle_inv (p\<lparr>decoders := (decoders p)(a := Some d')\<rparr>)" (is "lifecycle_inv ?q")
proof (rule lifecycle_invI)
  fix j b
  assume "handles ?q j = Live b"
  then show "\<exists>e. decoders ?q b = Some e"
    using inv_live [OF inv, of j b] by (cases "b = a") auto
next
  fix j k b
  assume "handles ?q j = Live b" and "handles ?q k = Live b"
  then show "j = k" using inv_unique [OF inv, of j b k] by simp
next
  fix b e
  assume "decoders ?q b = Some e"
  then show "b < allocated ?q"
    using inv_bound [OF inv, of b] d by (cases "b = a") auto
next
  fix b e
  assume "decoders ?q b = Some e"
  then show "\<exists>j. handles ?q j = Live b"
    using inv_owner [OF inv, of b] d by (cases "b = a") auto
next
  show "distinct (freed ?q)" using inv_distinct [OF inv] by simp
next
  fix b
  show "b \<in> set (freed ?q) \<longleftrightarrow> b < allocated ?q \<and> decoders ?q b = None"
    using inv_freed [OF inv, of b] d by (cases "b = a") auto
qed

lemma decode_live_cases:
  "(decoders p a = None \<and> decode_live codec a inp out p = None)
   \<or> (\<exists>d d' n bs st. decoders p a = Some d
        \<and> codec d (region inp) (nat (len out)) = (d', n, bs, st)
        \<and> decode_live codec a inp out p =
            Some (Inr (\<lparr>consumed = n, produced = length (take (nat (len out)) bs),
                        status = st\<rparr>,
                       write_region out (take (nat (len out)) bs)),
                  p\<lparr>decoders := (decoders p)(a := Some d')\<rparr>))"
proof (cases "decoders p a")
  case None
  then show ?thesis by (simp add: decode_live_def)
next
  case (Some d)
  obtain d' n bs st where "codec d (region inp) (nat (len out)) = (d', n, bs, st)"
    by (cases "codec d (region inp) (nat (len out))") auto
  then show ?thesis using Some by (simp add: decode_live_def)
qed

lemma decompress_live_valid:
  "handles p i = Live a \<Longrightarrow> valid_slice inp \<Longrightarrow> valid_slice out \<Longrightarrow>
   decompressChunk order codec i inp out p = decode_live codec a inp out p"
  by (cases order) (simp_all add: decompressChunk_def)

lemma decompress_live_invalid:
  "handles p i = Live a \<Longrightarrow> \<not> (valid_slice inp \<and> valid_slice out) \<Longrightarrow>
   decompressChunk order codec i inp out p = Some (Inl InvalidArgumentError, p)"
  by (cases order) (auto simp: decompressChunk_def)

lemma decompress_not_live:
  "\<forall>a. handles p i \<noteq> Live a \<Longrightarrow>
   \<exists>e. decompressChunk order codec i inp out p = Some (Inl e, p)"
  by (cases order; cases "handles p i") (auto simp: decompressChunk_def)

lemma decompress_released_valid:
  "handles p i = Released \<Longrightarrow> valid_slice inp \<Longrightarrow> valid_slice out \<Longrightarrow>
   decompressChunk order codec i inp out p = Some (Inl UseAfterReleaseError, p)"
  by (cases order) (simp_all add: decompressChunk_def)

lemma decompress_cases:
  "(\<exists>e. decompressChunk order codec i inp out p = Some (Inl e, p))
   \<or> (\<exists>a. handles p i = Live a \<and> valid_slice inp \<and> valid_slice out \<and> decoders p a = None
        \<and> decompressChunk order codec i inp out p = None)
   \<or> (\<exists>a d d' n bs st. handles p i = Live a \<and> valid_slice inp \<and> valid_slice out
        \<and> decoders p a = Some d
        \<and> codec d (region inp) (nat (len out)) = (d', n, bs, st)
        \<and> decompressChunk order codec i inp out p =
            Some (Inr (\<lparr>consumed = n, produced = length (take (nat (len out)) bs),
                        status = st\<rparr>,
                       write_region out (take (nat (len out)) bs)),
                  p\<lparr>decoders := (decoders p)(a := Some d')\<rparr>))"
proof (cases "\<exists>a. handles p i = Live a")
  case False
  then show ?thesis using decompress_not_live [of p i order codec inp out] by blast
next
  case True
  then obtain a where a: "handles p i = Live a" ..
  show ?thesis
  proof (cases "valid_slice inp \<and> valid_slice out")
    case False
    then show ?thesis using decompress_live_invalid [OF a] by blast
  next
    case True
    then have "decompressChunk order codec i inp out p = decode_live codec a inp out p"
      using decompress_live_valid [OF a] by blast
    then show ?thesis
      using decode_live_cases [of p a codec inp out] a True by auto
  qed
qed

lemma inv_decompress:
  assumes inv: "lifecycle_inv p"
  shows "\<exists>r q. decompressChunk order codec i inp out p = Some (r, q) \<and> lifecycle_inv q
           \<and> handles q = handles p \<and> freed q = freed p \<and> allocated q = allocated p"
  using decompress_cases [of order codec i inp out p] inv inv_decoder_update [OF inv]
    inv_live [OF inv, of i]
  by (elim disjE exE conjE) auto

lemma step_init_cases:
  "step order codec (Init i fresh) p = Some (Failed InitializationError, p)
   \<or> (\<exists>d. fresh = Some d \<and> handles p i = NotInitialized
        \<and> step order codec (Init i fresh) p =
            Some (Succeeded, p\<lparr>decoders := (decoders p)(allocated p := Some d),
                       handles := (handles p)(i := Live (allocated p)),
                       allocated := Suc (allocated p)\<rparr>))"
  using init_cases [of fresh i p] by auto

lemma step_inv:
  assumes inv: "lifecycle_inv p"
  shows "\<exists>r q. step order codec c p = Some (r, q) \<and> lifecycle_inv q"
proof (cases c)
  case InitFieldIdCache
  then show ?thesis using inv_cache [OF inv] by (simp add: initJavaFieldIdCache_def)
next
  case (Init i fresh)
  then show ?thesis
    using step_init_cases [of order codec i fresh p] inv inv_alloc [OF inv, of i] by auto
next
  case (Decompress i inp out)
  obtain r q where "decompressChunk order codec i inp out p = Some (r, q)" and "lifecycle_inv q"
    using inv_decompress [OF inv] by blast
  then show ?thesis using Decompress by simp
next
  case (Free i)
  obtain q where "freeNativeResources i p = Some (Inr (), q)" and "lifecycle_inv q"
    using inv_free [OF inv] by blast
  then show ?thesis using Free by simp
qed

lemma run_inv:
  "lifecycle_inv p \<Longrightarrow> \<exists>rs q. run order codec cs p = Some (rs, q) \<and> lifecycle_inv q"
proof (induction cs arbitrary: p)
  case Nil
  then show ?case by simp
next
  case (Cons c cs)
  obtain r q where s: "step order codec c p = Some (r, q)" and q: "lifecycle_inv q"
    using step_inv [OF Cons.prems] by blast
  obtain rs q' where "run order codec cs q = Some (rs, q')" and "lifecycle_inv q'"
    using Cons.IH [OF q] by blast
  then show ?case using s by simp
qed

lemma step_released:
  assumes rel: "handles p i = Released" and s: "step order codec c p = Some (r, q)"
  shows "handles q i = Released"
proof (cases c)
  case InitFieldIdCache
  then show ?thesis using s rel by (auto simp: initJavaFieldIdCache_def)
next
  case (Init j fresh)
  then show ?thesis
    using step_init_cases [of order codec j fresh p] s rel by (cases "j = i") auto
next
  case (Decompress j inp out)
  then show ?thesis
    using decompress_cases [of order codec j inp out p] s rel by auto
next
  case (Free j)
  then show ?thesis
    using free_cases [of p j] s rel by (cases "j = i") auto
qed

lemma step_free_released:
  assumes s: "step order codec (Free i) p = Some (r, q)"
  shows "r = Succeeded \<and> handles q i = Released"
  using free_cases [of p i] s by auto

lemma run_released:
  "Free i \<in> set cs \<or> handles p i = Released \<Longrightarrow> run order codec cs p = Some (rs, q) \<Longrightarrow>
   handles q i = Released"
proof (induction cs arbitrary: p rs)
  case Nil
  then show ?case by simp
next
  case (Cons c cs)
  from Cons.prems(2) obtain r p' rs' where s: "step order codec c p = Some (r, p')"
    and r: "run order codec cs p' = Some (rs', q)"
    by (auto split: option.splits)
  have "Free i \<in> set cs \<or> handles p' i = Released"
  proof (cases "handles p i = Released")
    case True
    then show ?thesis using step_released [OF _ s] by blast
  next
    case False
    with Cons.prems(1) have "c = Free i \<or> Free i \<in> set cs" by auto
    then show ?thesis using step_free_released s by blast
  qed
  then show ?case using Cons.IH r by blast
qed

lemma step_created:
  assumes s: "step order codec c p = Some (r, q)" and l: "handles q i = Live a"
    and n: "handles p i \<noteq> Live a"
  shows "(\<exists>d. c = Init i (Some d)) \<and> handles p i = NotInitialized"
proof (cases c)
  case InitFieldIdCache
  then show ?thesis using s l n by (auto simp: initJavaFieldIdCache_def)
next
  case (Init j fresh)
  then show ?thesis
    using step_init_cases [of order codec j fresh p] s l n by (cases "j = i") auto
next
  case (Decompress j inp out)
  then show ?thesis
    using decompress_cases [of order codec j inp out p] s l n by auto
next
  case (Free j)
  then show ?thesis
    using free_cases [of p j] s l n by (cases "j = i") auto
qed

lemma run_never_live:
  "\<forall>a. handles p i \<noteq> Live a \<Longrightarrow> \<forall>d. Init i (Some d) \<notin> set cs \<Longrightarrow>
   run order codec cs p = Some (rs, q) \<Longrightarrow> \<forall>a. handles q i \<noteq> Live a"
proof (induction cs arbitrary: p rs)
  case Nil
  then show ?case by simp
next
  case (Cons c cs)
  from Cons.prems(3) obtain r p' rs' where s: "step order codec c p = Some (r, p')"
    and r: "run order codec cs p' = Some (rs', q)"
    by (auto split: option.splits)
  have "\<forall>a. handles p' i \<noteq> Live a"
  proof (intro allI notI)
    fix a assume l: "handles p' i = Live a"
    have "handles p i \<noteq> Live a" using Cons.prems(1) by simp
    from step_created [OF s l this] obtain d where "c = Init i (Some d)" by blast
    then have "Init i (Some d) \<in> set (c # cs)" by simp
    then show False using Cons.prems(2) by blast
  qed
  moreover have "\<forall>d. Init i (Some d) \<notin> set cs" using Cons.prems(2) by simp
  ultimately show ?case using Cons.IH r by blast
qed

subsection \<open>Two concrete processes\<close>

lemma ready_eq:
  "ready = \<lparr> decoders = (\<lambda>a. None)(0 := Some 0), handles = (\<lambda>i. NotInitialized)(0 := Live 0),
             allocated = Suc 0, freed = [], field_cache = False \<rparr>"
  by (simp add: ready_def initBrotliDeCompressor_def start_def)

lemma step_init_start: "step order copy_codec (Init 0 (Some 0)) start = Some (Succeeded, ready)"
  by (simp add: ready_def initBrotliDeCompressor_def start_def)

lemma run_ready: "run order copy_codec [Init 0 (Some 0)] start = Some ([Succeeded], ready)"
  by (simp add: ready_def initBrotliDeCompressor_def start_def)

lemma free_ready: "freeNativeResources 0 ready = Some (Inr (), released)"
  by (simp add: freeNativeResources_def native_free_def ready_eq released_def)

lemma step_free_ready: "step order copy_codec (Free 0) ready = Some (Succeeded, released)"
  by (simp add: free_ready)

lemma run_ready_released:
  "run order copy_codec [Init 0 (Some 0), Free 0] start = Some ([Succeeded, Succeeded], released)"
  using free_ready by (simp add: ready_def initBrotliDeCompressor_def start_def)

subsection \<open>What a decode call writes, and the two tests\<close>

lemma length_write_region:
  assumes "valid_slice s" and "length bs \<le> nat (len s)"
  shows "length (write_region s bs) = length (backing s)"
proof -
  have "nat (offset s) + nat (len s) \<le> length (backing s)"
    using assms(1) by (simp add: valid_slice_def nat_add_distrib [symmetric] nat_le_iff)
  then show ?thesis using assms(2) by (simp add: write_region_def)
qed

lemma nth_write_region_before:
  assumes "valid_slice s" and "k < nat (offset s)"
  shows "write_region s bs ! k = backing s ! k"
proof -
  have "nat (offset s) \<le> length (backing s)"
    using assms(1) by (simp add: valid_slice_def nat_le_iff)
  then show ?thesis using assms(2) by (simp add: write_region_def nth_append)
qed

lemma nth_write_region_after:
  assumes "valid_slice s" and "length bs \<le> nat (len s)"
    and "nat (offset s) + nat (len s) \<le> k" and "k < length (backing s)"
  shows "write_region s bs ! k = backing s ! k"
proof -
  have off: "nat (offset s) \<le> length (backing s)"
    using assms(1) by (simp add: valid_slice_def nat_le_iff)
  have k: "nat (offset s) + length bs \<le> k" using assms(2,3) by simp
  have nb: "\<not> k - nat (offset s) < length bs" using k by arith
  have nt: "\<not> k < nat (offset s)" using k by arith
  have idx: "nat (offset s) + length bs + (k - nat (offset s) - length bs) = k" using k by arith
  have "write_region s bs ! k =
      drop (nat (offset s) + length bs) (backing s) ! (k - nat (offset s) - length bs)"
    using off nb nt by (simp add: write_region_def nth_append)
  also have "\<dots> = backing s ! k"
    using assms(4) k by (simp add: idx)
  finally show ?thesis .
qed

text \<open>
  Whatever the order of the tests and whatever the codec hands back: a decode call
  that returns a result leaves the output buffer at its size, produces at most the
  output slice's length, and leaves every byte outside the slice as it was.
\<close>

lemma decode_writes_within_region:
  assumes "decompressChunk order codec i inp out p = Some (Inr (res, buf), q)"
  shows "length buf = length (backing out)
         \<and> produced res \<le> nat (len out)
         \<and> (\<forall>k. k < length buf \<and> (k < nat (offset out) \<or> nat (offset out) + nat (len out) \<le> k)
               \<longrightarrow> buf ! k = backing out ! k)"
proof -
  from assms obtain bs st n where v: "valid_slice out"
    and res: "res = \<lparr>consumed = n, produced = length (take (nat (len out)) bs), status = st\<rparr>"
    and buf: "buf = write_region out (take (nat (len out)) bs)"
    using decompress_cases [of order codec i inp out p] by auto
  have le: "length (take (nat (len out)) bs) \<le> nat (len out)" by simp
  show ?thesis
    unfolding buf res
    using nth_write_region_before [OF v] nth_write_region_after [OF v le]
      length_write_region [OF v le] le
    by auto
qed

text \<open>
  On a live handle both orders agree: a slice out of bounds is refused with
  \<open>InvalidArgumentError\<close> and the process is left as it was.
\<close>

lemma decode_out_of_bounds_live:
  assumes "handles p i = Live a"
    and "int (length (backing inp)) < offset inp + len inp
         \<or> int (length (backing out)) < offset out + len out"
  shows "decompressChunk order codec i inp out p = Some (Inl InvalidArgumentError, p)"
proof -
  from assms(2) have "\<not> (valid_slice inp \<and> valid_slice out)"
    by (auto simp: valid_slice_def)
  then show ?thesis by (rule decompress_live_invalid [OF assms(1)])
qed

text \<open>
  With the slices tested first, every call with a slice out of bounds is refused with
  \<open>InvalidArgumentError\<close>, whatever the handle; with the handle tested first, every
  call on a released handle is refused with \<open>UseAfterReleaseError\<close>, whatever the
  slices. A call that is both gets one answer or the other, by the order alone.
\<close>

lemma decode_out_of_bounds_slices_first:
  assumes "int (length (backing inp)) < offset inp + len inp
         \<or> int (length (backing out)) < offset out + len out"
  shows "decompressChunk SlicesFirst codec i inp out p = Some (Inl InvalidArgumentError, p)"
proof -
  from assms have "(valid_slice inp \<and> valid_slice out) = False"
    by (auto simp: valid_slice_def)
  then show ?thesis
    unfolding decompressChunk_def by (simp only: check_order.case if_False)
qed

lemma decode_released_handle_first:
  "handles p i = Released \<Longrightarrow>
   decompressChunk HandleFirst codec i inp out p = Some (Inl UseAfterReleaseError, p)"
  by (simp add: decompressChunk_def)

lemma decode_released_out_of_bounds:
  assumes "handles p i = Released" and "\<not> valid_slice inp"
  shows "decompressChunk SlicesFirst codec i inp out p = Some (Inl InvalidArgumentError, p)
         \<and> decompressChunk HandleFirst codec i inp out p = Some (Inl UseAfterReleaseError, p)"
  using assms by (simp add: decompressChunk_def)

text \<open>
  Sections 4.1 and 8 of the spec each name the error of a decode call that is both
  issued after the release and out of bounds: \<open>UseAfterReleaseError\<close> in one,
  \<open>InvalidArgumentError\<close> in the other. No operation answers both, whatever its body:
\<close>

lemma release_and_bounds_errors_conflict:
  fixes f :: "'d codec \<Rightarrow> inst \<Rightarrow> Slice \<Rightarrow> Slice \<Rightarrow> 'd Process
     \<Rightarrow> ((Error + DecodeResult \<times> byte list) \<times> 'd Process) option"
  shows "\<not> ((\<forall>codec i inp out p. handles p i = Released
                \<longrightarrow> f codec i inp out p = Some (Inl UseAfterReleaseError, p))
          \<and> (\<forall>codec i inp out p. \<not> valid_slice inp
                \<longrightarrow> f codec i inp out p = Some (Inl InvalidArgumentError, p)))"
proof
  let ?bad = "\<lparr>backing = [], offset = 0, len = 1\<rparr>"
  let ?p = "start\<lparr>handles := (\<lambda>i. Released)\<rparr> :: 'd Process"
  assume both: "(\<forall>codec i inp out p. handles p i = Released
                \<longrightarrow> f codec i inp out p = Some (Inl UseAfterReleaseError, p))
          \<and> (\<forall>codec i inp out p. \<not> valid_slice inp
                \<longrightarrow> f codec i inp out p = Some (Inl InvalidArgumentError, p))"
  have "handles ?p 0 = Released" by simp
  with both have "f undefined 0 ?bad ?bad ?p = Some (Inl UseAfterReleaseError, ?p)" by blast
  moreover have "\<not> valid_slice ?bad" by (simp add: valid_slice_def)
  with both have "f undefined 0 ?bad ?bad ?p = Some (Inl InvalidArgumentError, ?p)" by blast
  ultimately show False by simp
qed

text \<open>
  Whatever the order: from any state a sequence of calls reaches, the first release
  of an instance succeeds; after it, whatever calls follow, none is without a value
  (no decoder is freed twice), the handle stays released, a further release answers
  success and changes nothing, the log of destroyed decoders has no duplicate, and a
  decode call whose slices are in bounds fails with \<open>UseAfterReleaseError\<close>.
\<close>

lemma release_repeats:
  "\<exists>rs p p1 rs' p2.
      run order codec cs start = Some (rs, p)
    \<and> freeNativeResources i p = Some (Inr (), p1)
    \<and> run order codec cs' p1 = Some (rs', p2)
    \<and> handles p2 i = Released
    \<and> freeNativeResources i p2 = Some (Inr (), p2)
    \<and> distinct (freed p2)
    \<and> (valid_slice inp \<and> valid_slice out
          \<longrightarrow> decompressChunk order codec i inp out p2 = Some (Inl UseAfterReleaseError, p2))"
proof -
  obtain rs p where run: "run order codec cs start = Some (rs, p)" and p: "lifecycle_inv p"
    using run_inv [OF inv_start] by blast
  obtain p1 where f: "freeNativeResources i p = Some (Inr (), p1)"
    and p1: "lifecycle_inv p1" and r1: "handles p1 i = Released"
    using inv_free [OF p] by blast
  obtain rs' p2 where run': "run order codec cs' p1 = Some (rs', p2)" and p2: "lifecycle_inv p2"
    using run_inv [OF p1] by blast
  have r2: "handles p2 i = Released" using run_released [OF _ run'] r1 by blast
  have f2: "freeNativeResources i p2 = Some (Inr (), p2)"
    by (simp add: freeNativeResources_def r2)
  have d2: "valid_slice inp \<and> valid_slice out
          \<longrightarrow> decompressChunk order codec i inp out p2 = Some (Inl UseAfterReleaseError, p2)"
    using decompress_released_valid [OF r2] by blast
  show ?thesis
    using run f run' r2 f2 inv_distinct [OF p2] d2 by blast
qed

subsection \<open>The lifecycle of a decoder handle\<close>

lemma step_init_creates:
  assumes inv: "lifecycle_inv p" and s: "step order codec (Init i (Some d)) p = Some (r, q)"
    and h: "handles p i = NotInitialized"
  shows "r = Succeeded \<and> handles q i = Live (allocated p)
         \<and> decoders p (allocated p) = None \<and> decoders q (allocated p) = Some d"
proof -
  have "decoders p (allocated p) = None"
    using inv_bound [OF inv, of "allocated p"] by (cases "decoders p (allocated p)") auto
  then show ?thesis
    using s h by (simp add: initBrotliDeCompressor_def) auto
qed

lemma step_mutated:
  assumes inv: "lifecycle_inv p" and s: "step order codec c p = Some (r, q)"
    and l: "handles p i = Live a" and l': "handles q i = Live a"
    and m: "decoders q a \<noteq> decoders p a"
  shows "\<exists>inp out. c = Decompress i inp out"
proof (cases c)
  case InitFieldIdCache
  then show ?thesis using s m by (auto simp: initJavaFieldIdCache_def)
next
  case (Init j fresh)
  have "a \<noteq> allocated p"
    using inv_live [OF inv l] inv_bound [OF inv, of a] by auto
  then show ?thesis
    using Init step_init_cases [of order codec j fresh p] s m by auto
next
  case (Decompress j inp out)
  have "j = i"
  proof (rule ccontr)
    assume ji: "j \<noteq> i"
    have "handles p j \<noteq> Live a" using inv_unique [OF inv _ l] ji by blast
    then have "decoders q a = decoders p a"
      using Decompress decompress_cases [of order codec j inp out p] s by auto
    then show False using m by simp
  qed
  then show ?thesis using Decompress by simp
next
  case (Free j)
  have "j \<noteq> i" using Free free_cases [of p j] s l l' by auto
  then have "handles p j \<noteq> Live a" using inv_unique [OF inv _ l] by blast
  then have "decoders q a = decoders p a"
    using Free free_cases [of p j] s by auto
  then show ?thesis using m by simp
qed

lemma step_decode_live:
  assumes s: "step order codec (Decompress i inp out) p = Some (r, q)"
    and l: "handles p i = Live a" and v: "valid_slice inp \<and> valid_slice out"
  shows "\<exists>res buf d0. r = Decoded res buf \<and> handles q i = Live a \<and> decoders p a = Some d0
           \<and> decoders q a = Some (fst (codec d0 (region inp) (nat (len out))))"
proof -
  have "decompressChunk order codec i inp out p = decode_live codec a inp out p"
    using decompress_live_valid [OF l] v by blast
  then show ?thesis
    using decode_live_cases [of p a codec inp out] s l by auto
qed

lemma step_destroyed:
  assumes inv: "lifecycle_inv p" and s: "step order codec c p = Some (r, q)"
    and l: "handles p i = Live a" and n: "handles q i \<noteq> Live a"
  shows "c = Free i"
proof (cases c)
  case InitFieldIdCache
  then show ?thesis using s l n by (auto simp: initJavaFieldIdCache_def)
next
  case (Init j fresh)
  then show ?thesis
    using step_init_cases [of order codec j fresh p] s l n by (cases "j = i") auto
next
  case (Decompress j inp out)
  then show ?thesis
    using decompress_cases [of order codec j inp out p] s l n by auto
next
  case (Free j)
  then show ?thesis using free_cases [of p j] s l n by (cases "j = i") auto
qed

lemma step_free_destroys:
  assumes inv: "lifecycle_inv p" and s: "step order codec (Free i) p = Some (r, q)"
    and l: "handles p i = Live a"
  shows "decoders q a = None \<and> freed q = freed p @ [a] \<and> a \<notin> set (freed p)"
proof -
  obtain d where d: "decoders p a = Some d" using inv_live [OF inv l] ..
  have "a \<notin> set (freed p)" using inv_freed [OF inv, of a] d by simp
  then show ?thesis using free_cases [of p i] s l d by auto
qed

lemma step_decoder_gone:
  assumes s: "step order codec c p = Some (r, q)"
    and d: "decoders p a \<noteq> None" and g: "decoders q a = None"
  shows "\<exists>i. c = Free i \<and> handles p i = Live a"
proof (cases c)
  case InitFieldIdCache
  then show ?thesis using s d g by (auto simp: initJavaFieldIdCache_def)
next
  case (Init j fresh)
  then show ?thesis
    using step_init_cases [of order codec j fresh p] s d g by (auto split: if_splits)
next
  case (Decompress j inp out)
  then show ?thesis
    using decompress_cases [of order codec j inp out p] s d g by (auto split: if_splits)
next
  case (Free j)
  then show ?thesis
    using free_cases [of p j] s d g by (auto split: if_splits)
qed

lemma step_freed_grows:
  assumes s: "step order codec c p = Some (r, q)"
  shows "\<exists>zs. freed q = freed p @ zs"
proof (cases c)
  case InitFieldIdCache
  then show ?thesis using s by (auto simp: initJavaFieldIdCache_def)
next
  case (Init j fresh)
  then show ?thesis using step_init_cases [of order codec j fresh p] s by auto
next
  case (Decompress j inp out)
  then show ?thesis using decompress_cases [of order codec j inp out p] s by auto
next
  case (Free j)
  then show ?thesis using free_cases [of p j] s by auto
qed

lemma step_handle_frame:
  assumes s: "step order codec c p = Some (r, q)" and n: "handles q i \<noteq> handles p i"
  shows "(\<exists>fresh. c = Init i fresh) \<or> c = Free i"
proof (cases c)
  case InitFieldIdCache
  then show ?thesis using s n by (auto simp: initJavaFieldIdCache_def)
next
  case (Init j fresh)
  then show ?thesis
    using step_init_cases [of order codec j fresh p] s n by (cases "j = i") auto
next
  case (Decompress j inp out)
  then show ?thesis
    using decompress_cases [of order codec j inp out p] s n by auto
next
  case (Free j)
  then show ?thesis using free_cases [of p j] s n by (cases "j = i") auto
qed

lemma step_decoder_created:
  assumes inv: "lifecycle_inv p" and s: "step order codec c p = Some (r, q)"
    and d: "decoders p a = None" and g: "decoders q a \<noteq> None"
  shows "\<exists>i d. c = Init i (Some d) \<and> a = allocated p \<and> handles q i = Live a"
proof (cases c)
  case InitFieldIdCache
  then show ?thesis using s d g by (auto simp: initJavaFieldIdCache_def)
next
  case (Init j fresh)
  then show ?thesis
    using step_init_cases [of order codec j fresh p] s d g by (auto split: if_splits)
next
  case (Decompress j inp out)
  then show ?thesis
    using decompress_cases [of order codec j inp out p] s d g by (auto split: if_splits)
next
  case (Free j)
  then show ?thesis
    using free_cases [of p j] s d g by (auto split: if_splits)
qed

lemma step_decode_not_live:
  assumes s: "step order codec (Decompress i inp out) p = Some (r, q)"
    and n: "\<forall>a. handles p i \<noteq> Live a"
  shows "(\<exists>e. r = Failed e) \<and> q = p"
  using decompress_not_live [OF n, of order codec inp out] s by auto

lemma distinct_count_list_1: "distinct xs \<Longrightarrow> x \<in> set xs \<Longrightarrow> count_list xs x = 1"
  by (induction xs) auto

lemma inv_ledger:
  assumes inv: "lifecycle_inv q" and a: "a < allocated q"
  shows "(decoders q a \<noteq> None \<and> count_list (freed q) a = 0)
         \<or> (decoders q a = None \<and> count_list (freed q) a = 1)"
proof (cases "decoders q a")
  case None
  then have "a \<in> set (freed q)" using inv_freed [OF inv, of a] a by simp
  then show ?thesis
    using None distinct_count_list_1 [OF inv_distinct [OF inv]] by simp
next
  case (Some d)
  then have "a \<notin> set (freed q)" using inv_freed [OF inv, of a] by simp
  then show ?thesis using Some by simp
qed

text \<open>
  C6. Take either order of the two tests, any codec, any sequence of calls \<open>cs\<close> from
  the start of the process and any next call \<open>c\<close>. The sequence and the call have
  values (no call uses or frees a decoder that is gone), the invariant holds
  afterwards, and for the step from \<open>p\<close> to \<open>q\<close>:
  \<^item> created by init: a handle changes only by an init or a teardown of its instance;
    a handle becomes live only by a successful init of its instance, which was not
    initialized before; a decoder comes to exist only by an init, at the address the
    new handle holds; and an init of an instance not initialized before, with a
    decoder allocated, succeeds and makes its handle live, at a fresh address that
    holds the new decoder;
  \<^item> mutated only by its decode calls: the decoder of a handle that stays live changes
    only by a decode call issued against that instance; and a decode call with slices
    in bounds against a live handle returns a result, keeps the handle live and
    leaves the decoder in the state the codec gives;
  \<^item> destroyed exactly once by teardown: a live handle ends only by the teardown of
    its instance; a teardown succeeds and leaves the handle released; the teardown of
    a live handle destroys its decoder, a decoder not destroyed before; a decoder
    disappears only by the teardown of the instance that holds it; the log of
    destroyed decoders only grows; and every decoder allocated so far either exists
    and was never destroyed, or exists no longer and was destroyed exactly once;
  \<^item> no decode call before init or after teardown: a decode call against an instance
    whose handle is not live fails and changes nothing; the handle is not live as long
    as no init with a decoder allocated was called for the instance, and it is
    released after any sequence in which the teardown of the instance occurs; so in
    both cases the decode call fails and changes nothing.
\<close>

theorem decoder_handle_lifecycle:
  "\<exists>rs p r q.
      run order codec cs start = Some (rs, p) \<and> step order codec c p = Some (r, q)
    \<and> lifecycle_inv q
    \<and> (\<forall>i. handles q i \<noteq> handles p i \<longrightarrow> (\<exists>fresh. c = Init i fresh) \<or> c = Free i)
    \<and> (\<forall>i a. handles q i = Live a \<and> handles p i \<noteq> Live a
          \<longrightarrow> (\<exists>d. c = Init i (Some d)) \<and> handles p i = NotInitialized)
    \<and> (\<forall>a. decoders p a = None \<and> decoders q a \<noteq> None
          \<longrightarrow> (\<exists>i d. c = Init i (Some d) \<and> a = allocated p \<and> handles q i = Live a))
    \<and> (\<forall>i d. c = Init i (Some d) \<and> handles p i = NotInitialized
          \<longrightarrow> r = Succeeded \<and> handles q i = Live (allocated p)
              \<and> decoders p (allocated p) = None \<and> decoders q (allocated p) = Some d)
    \<and> (\<forall>i a. handles p i = Live a \<and> handles q i = Live a \<and> decoders q a \<noteq> decoders p a
          \<longrightarrow> (\<exists>inp out. c = Decompress i inp out))
    \<and> (\<forall>i a inp out. c = Decompress i inp out \<and> handles p i = Live a
            \<and> valid_slice inp \<and> valid_slice out
          \<longrightarrow> (\<exists>res buf d0. r = Decoded res buf \<and> handles q i = Live a
                \<and> decoders p a = Some d0
                \<and> decoders q a = Some (fst (codec d0 (region inp) (nat (len out))))))
    \<and> (\<forall>i a. handles p i = Live a \<and> handles q i \<noteq> Live a \<longrightarrow> c = Free i)
    \<and> (\<forall>i. c = Free i \<longrightarrow> r = Succeeded \<and> handles q i = Released)
    \<and> (\<forall>i a. c = Free i \<and> handles p i = Live a
          \<longrightarrow> decoders q a = None \<and> freed q = freed p @ [a] \<and> a \<notin> set (freed p))
    \<and> (\<forall>a. decoders p a \<noteq> None \<and> decoders q a = None
          \<longrightarrow> (\<exists>i. c = Free i \<and> handles p i = Live a))
    \<and> (\<exists>zs. freed q = freed p @ zs)
    \<and> (\<forall>a. a < allocated q
          \<longrightarrow> (decoders q a \<noteq> None \<and> count_list (freed q) a = 0)
              \<or> (decoders q a = None \<and> count_list (freed q) a = 1))
    \<and> (\<forall>i inp out. c = Decompress i inp out \<and> (\<forall>a. handles p i \<noteq> Live a)
          \<longrightarrow> (\<exists>e. r = Failed e) \<and> q = p)
    \<and> (\<forall>i. (\<forall>d. Init i (Some d) \<notin> set cs) \<longrightarrow> (\<forall>a. handles p i \<noteq> Live a))
    \<and> (\<forall>i. Free i \<in> set cs \<longrightarrow> handles p i = Released)
    \<and> (\<forall>i inp out. c = Decompress i inp out
            \<and> ((\<forall>d. Init i (Some d) \<notin> set cs) \<or> Free i \<in> set cs)
          \<longrightarrow> (\<exists>e. r = Failed e) \<and> q = p)"
proof -
  obtain rs p where run: "run order codec cs start = Some (rs, p)" and p: "lifecycle_inv p"
    using run_inv [OF inv_start] by blast
  obtain r q where s: "step order codec c p = Some (r, q)" and q: "lifecycle_inv q"
    using step_inv [OF p] by blast
  have frame: "\<forall>i. handles q i \<noteq> handles p i \<longrightarrow> (\<exists>fresh. c = Init i fresh) \<or> c = Free i"
    using step_handle_frame [OF s] by blast
  have created: "\<forall>i a. handles q i = Live a \<and> handles p i \<noteq> Live a
          \<longrightarrow> (\<exists>d. c = Init i (Some d)) \<and> handles p i = NotInitialized"
    using step_created [OF s] by blast
  have allocd: "\<forall>a. decoders p a = None \<and> decoders q a \<noteq> None
          \<longrightarrow> (\<exists>i d. c = Init i (Some d) \<and> a = allocated p \<and> handles q i = Live a)"
    using step_decoder_created [OF p s] by blast
  have creates: "\<forall>i d. c = Init i (Some d) \<and> handles p i = NotInitialized
          \<longrightarrow> r = Succeeded \<and> handles q i = Live (allocated p)
              \<and> decoders p (allocated p) = None \<and> decoders q (allocated p) = Some d"
    using step_init_creates [OF p] s by blast
  have mutated: "\<forall>i a. handles p i = Live a \<and> handles q i = Live a \<and> decoders q a \<noteq> decoders p a
          \<longrightarrow> (\<exists>inp out. c = Decompress i inp out)"
    using step_mutated [OF p s] by blast
  have mutates: "\<forall>i a inp out. c = Decompress i inp out \<and> handles p i = Live a
            \<and> valid_slice inp \<and> valid_slice out
          \<longrightarrow> (\<exists>res buf d0. r = Decoded res buf \<and> handles q i = Live a
                \<and> decoders p a = Some d0
                \<and> decoders q a = Some (fst (codec d0 (region inp) (nat (len out)))))"
    using step_decode_live s by blast
  have destroyed: "\<forall>i a. handles p i = Live a \<and> handles q i \<noteq> Live a \<longrightarrow> c = Free i"
    using step_destroyed [OF p s] by blast
  have releases: "\<forall>i. c = Free i \<longrightarrow> r = Succeeded \<and> handles q i = Released"
    using step_free_released s by blast
  have destroys: "\<forall>i a. c = Free i \<and> handles p i = Live a
          \<longrightarrow> decoders q a = None \<and> freed q = freed p @ [a] \<and> a \<notin> set (freed p)"
    using step_free_destroys [OF p] s by blast
  have gone: "\<forall>a. decoders p a \<noteq> None \<and> decoders q a = None
          \<longrightarrow> (\<exists>i. c = Free i \<and> handles p i = Live a)"
    using step_decoder_gone [OF s] by blast
  have grows: "\<exists>zs. freed q = freed p @ zs"
    by (rule step_freed_grows [OF s])
  have ledger: "\<forall>a. a < allocated q
          \<longrightarrow> (decoders q a \<noteq> None \<and> count_list (freed q) a = 0)
              \<or> (decoders q a = None \<and> count_list (freed q) a = 1)"
    using inv_ledger [OF q] by blast
  have notlive: "\<forall>i inp out. c = Decompress i inp out \<and> (\<forall>a. handles p i \<noteq> Live a)
          \<longrightarrow> (\<exists>e. r = Failed e) \<and> q = p"
    using step_decode_not_live s by blast
  have before: "\<forall>i. (\<forall>d. Init i (Some d) \<notin> set cs) \<longrightarrow> (\<forall>a. handles p i \<noteq> Live a)"
  proof (intro allI impI)
    fix i a
    assume "\<forall>d. Init i (Some d) \<notin> set cs"
    moreover have "\<forall>a. handles (start :: 'a Process) i \<noteq> Live a" by (simp add: start_def)
    ultimately show "handles p i \<noteq> Live a" using run_never_live [OF _ _ run] by blast
  qed
  have after: "\<forall>i. Free i \<in> set cs \<longrightarrow> handles p i = Released"
    using run_released [OF _ run] by blast
  have outside: "\<forall>i inp out. c = Decompress i inp out
            \<and> ((\<forall>d. Init i (Some d) \<notin> set cs) \<or> Free i \<in> set cs)
          \<longrightarrow> (\<exists>e. r = Failed e) \<and> q = p"
  proof (intro allI impI)
    fix i inp out
    assume a: "c = Decompress i inp out
            \<and> ((\<forall>d. Init i (Some d) \<notin> set cs) \<or> Free i \<in> set cs)"
    then have "\<forall>a. handles p i \<noteq> Live a" using before after by fastforce
    with a notlive show "(\<exists>e. r = Failed e) \<and> q = p" by blast
  qed
  show ?thesis
    apply (rule exI [of _ rs], rule exI [of _ p], rule exI [of _ r], rule exI [of _ q])
    apply (intro conjI)
    apply (rule run s q frame created allocd creates mutated mutates destroyed releases destroys gone grows
        ledger notlive before after outside)+
    done
qed

text \<open>
  The statement at concrete inputs: init makes the handle of instance 0 live at
  address 0; a decode call in bounds changes its decoder; the release of the live
  handle destroys decoder 0 once; a decode call after it fails, and so does a decode
  call against instance 1, which was never initialized.
\<close>

theorem decoder_handle_lifecycle_witness:
  "step SlicesFirst copy_codec (Init 0 (Some 0)) start = Some (Succeeded, ready)
   \<and> handles (start :: nat Process) 0 = NotInitialized
   \<and> allocated (start :: nat Process) = 0
   \<and> decoders (start :: nat Process) 0 = None
   \<and> handles ready 0 = Live 0
   \<and> decoders ready 0 = Some 0
   \<and> run SlicesFirst copy_codec [Init 0 (Some 0)] start = Some ([Succeeded], ready)
   \<and> valid_slice \<lparr>backing = [1, 2, 3], offset = 1, len = 2\<rparr>
   \<and> valid_slice \<lparr>backing = [9, 9, 9, 9, 9], offset = 1, len = 3\<rparr>
   \<and> step SlicesFirst copy_codec (Decompress 0 \<lparr>backing = [1, 2, 3], offset = 1, len = 2\<rparr>
          \<lparr>backing = [9, 9, 9, 9, 9], offset = 1, len = 3\<rparr>) ready
      = Some (Decoded \<lparr>consumed = 2, produced = 2, status = NEEDS_MORE_INPUT\<rparr> [9, 2, 3, 9, 9],
              ready\<lparr>decoders := (decoders ready)(0 := Some 2)\<rparr>)
   \<and> decoders (ready\<lparr>decoders := (decoders ready)(0 := Some 2)\<rparr>) 0 \<noteq> decoders ready 0
   \<and> step SlicesFirst copy_codec (Free 0) ready = Some (Succeeded, released)
   \<and> handles released 0 = Released
   \<and> decoders released 0 = None
   \<and> freed released = freed ready @ [0]
   \<and> 0 \<notin> set (freed ready)
   \<and> allocated released = 1
   \<and> count_list (freed released) 0 = 1
   \<and> lifecycle_inv released
   \<and> Free 0 \<in> set [Init 0 (Some (0 :: nat)), Free 0]
   \<and> run HandleFirst copy_codec [Init 0 (Some 0), Free 0] start
      = Some ([Succeeded, Succeeded], released)
   \<and> step HandleFirst copy_codec (Decompress 0 \<lparr>backing = [1, 2, 3], offset = 1, len = 2\<rparr>
          \<lparr>backing = [9, 9, 9, 9, 9], offset = 1, len = 3\<rparr>) released
      = Some (Failed UseAfterReleaseError, released)
   \<and> step SlicesFirst copy_codec (Decompress 1 \<lparr>backing = [1, 2, 3], offset = 1, len = 2\<rparr>
          \<lparr>backing = [9, 9, 9, 9, 9], offset = 1, len = 3\<rparr>) ready
      = Some (Failed InitializationError, ready)"
proof -
  let ?inp = "\<lparr>backing = [1, 2, 3 :: byte], offset = 1, len = 2\<rparr>"
  let ?out = "\<lparr>backing = [9, 9, 9, 9, 9 :: byte], offset = 1, len = 3\<rparr>"
  have live: "handles ready 0 = Live 0" by (simp add: ready_eq)
  have rel: "handles released 0 = Released" by (simp add: released_def)
  from decoder_handle_lifecycle [of SlicesFirst copy_codec "[Init 0 (Some 0)]" "Free 0"]
  obtain rs p r q where
    a1: "run SlicesFirst copy_codec [Init 0 (Some 0)] start = Some (rs, p)"
    and a2: "step SlicesFirst copy_codec (Free 0) p = Some (r, q)"
    and a3: "lifecycle_inv q"
    and a4: "\<forall>i. (Free 0 :: nat call) = Free i \<longrightarrow> r = Succeeded \<and> handles q i = Released"
    and a5: "\<forall>i a. (Free 0 :: nat call) = Free i \<and> handles p i = Live a
          \<longrightarrow> decoders q a = None \<and> freed q = freed p @ [a] \<and> a \<notin> set (freed p)"
    and a6: "\<forall>a. a < allocated q
          \<longrightarrow> (decoders q a \<noteq> None \<and> count_list (freed q) a = 0)
              \<or> (decoders q a = None \<and> count_list (freed q) a = 1)"
    by (elim exE conjE) (rule that; assumption)
  have p: "p = ready"
    using a1 by (simp only: run_ready option.inject prod.inject)
  have q: "q = released"
    using a2 unfolding p by (simp only: step_free_ready option.inject prod.inject)
  have inv: "lifecycle_inv released" using a3 unfolding q .
  from a4 [unfolded q] have rel': "handles released 0 = Released" by blast
  from a5 [unfolded p q] live have gone: "decoders released 0 = None"
    and log: "freed released = freed ready @ [0]" and fresh: "0 \<notin> set (freed ready)"
    by blast+
  have alloc: "allocated released = 1" by (simp add: released_def ready_eq)
  with a6 [unfolded q] gone have once: "count_list (freed released) 0 = 1" by auto
  from decoder_handle_lifecycle
    [of HandleFirst copy_codec "[Init 0 (Some 0), Free 0]" "Decompress 0 ?inp ?out"]
  obtain rs' p' r' q' where
    b1: "run HandleFirst copy_codec [Init 0 (Some 0), Free 0] start = Some (rs', p')"
    and b2: "step HandleFirst copy_codec (Decompress 0 ?inp ?out) p' = Some (r', q')"
    and b3: "\<forall>i inp out. (Decompress 0 ?inp ?out :: nat call) = Decompress i inp out
            \<and> ((\<forall>d. Init i (Some d) \<notin> set [Init 0 (Some (0 :: nat)), Free 0])
                \<or> Free i \<in> set [Init 0 (Some (0 :: nat)), Free 0])
          \<longrightarrow> (\<exists>e. r' = Failed e) \<and> q' = p'"
    by (elim exE conjE) (rule that; assumption)
  have p': "p' = released"
    using b1 by (simp only: run_ready_released option.inject prod.inject)
  have mem: "Free 0 \<in> set [Init 0 (Some (0 :: nat)), Free 0]" by simp
  with b3 [unfolded p'] obtain e where "r' = Failed e" and "q' = released" by blast
  with b2 [unfolded p']
  have "step HandleFirst copy_codec (Decompress 0 ?inp ?out) released = Some (Failed e, released)"
    by simp
  moreover have "step HandleFirst copy_codec (Decompress 0 ?inp ?out) released
      = Some (Failed UseAfterReleaseError, released)"
    by (simp add: decompressChunk_def rel)
  moreover have "handles (start :: nat Process) 0 = NotInitialized
      \<and> allocated (start :: nat Process) = 0 \<and> decoders (start :: nat Process) 0 = None"
    by (simp add: start_def)
  moreover have "decoders ready 0 = Some 0" by (simp add: ready_eq)
  moreover have "valid_slice ?inp \<and> valid_slice ?out" by (simp add: valid_slice_def)
  moreover have "step SlicesFirst copy_codec (Decompress 0 ?inp ?out) ready
      = Some (Decoded \<lparr>consumed = 2, produced = 2, status = NEEDS_MORE_INPUT\<rparr> [9, 2, 3, 9, 9],
              ready\<lparr>decoders := (decoders ready)(0 := Some 2)\<rparr>)"
    by (simp add: decompressChunk_def decode_live_def valid_slice_def region_def write_region_def
        copy_codec_def ready_eq numeral_2_eq_2)
  moreover have "step SlicesFirst copy_codec (Decompress 1 ?inp ?out) ready
      = Some (Failed InitializationError, ready)"
    by (simp add: decompressChunk_def valid_slice_def ready_eq)
  ultimately show ?thesis
    using step_init_start [of SlicesFirst] run_ready [of SlicesFirst] live
      step_free_ready [of SlicesFirst] rel gone log fresh alloc once inv mem
      run_ready_released [of HandleFirst]
    by simp
qed

end
